theory Spec2Isabelle
  imports Main "HOL-Library.Word" "HOL-Library.Multiset" "HOL-Library.List_Lexorder"
begin

section \<open>JavaScript values used by the blog list\<close>

text \<open>
  A JavaScript string is a finite sequence of UTF-16 code units. The order \<open><\<close> on
  \<open>js_string\<close> is the lexicographic order of the code unit sequences (a proper prefix
  is smaller), which is how the language compares two strings with \<open><\<close> and how
  \<open>Array.prototype.sort\<close> compares them when it is given no comparator.
\<close>

type_synonym code_unit = "16 word"

type_synonym js_string = "code_unit list"

text \<open>String literals of the source, written with ASCII characters.\<close>

definition js :: "string \<Rightarrow> js_string" where
  "js s = map (\<lambda>c. of_nat (of_char c)) s"

text \<open>
  \<open>String.prototype.includes\<close>, searching from position 0: some position of the
  receiver starts an occurrence of the argument.
\<close>

fun starts_with :: "'a list \<Rightarrow> 'a list \<Rightarrow> bool" where
  "starts_with s [] = True"
| "starts_with [] (c # t) = False"
| "starts_with (d # s) (c # t) = (d = c \<and> starts_with s t)"

fun string_includes :: "'a list \<Rightarrow> 'a list \<Rightarrow> bool" where
  "string_includes [] t = starts_with [] t"
| "string_includes (d # s) t = (starts_with (d # s) t \<or> string_includes s t)"

text \<open>
  \<open>Array.prototype.sort\<close> is a builtin. The language standard (since ECMAScript 2019)
  requires it to be stable, and for a consistent comparator it fixes the result: the
  elements in an order where no element is followed by one the comparator puts strictly
  before it, ties in their original order. Insertion from the right computes that result;
  the comparator is read only through the sign of its value, as the builtin does.
\<close>

fun insort_cmp :: "('a \<Rightarrow> 'a \<Rightarrow> int) \<Rightarrow> 'a \<Rightarrow> 'a list \<Rightarrow> 'a list" where
  "insort_cmp cmp x [] = [x]"
| "insort_cmp cmp x (y # ys) =
     (if cmp x y \<le> 0 then x # y # ys else y # insort_cmp cmp x ys)"

definition array_sort :: "('a \<Rightarrow> 'a \<Rightarrow> int) \<Rightarrow> 'a list \<Rightarrow> 'a list" where
  "array_sort cmp xs = foldr (insort_cmp cmp) xs []"

text \<open>
  The numbers of the component: time values, their differences and the results of
  \<open>localeCompare\<close> are integral; the time value of an Invalid Date is \<open>NaN\<close>, and so is
  every difference it takes part in.
\<close>

datatype js_number = NaN | Num int

fun number_minus :: "js_number \<Rightarrow> js_number \<Rightarrow> js_number" where
  "number_minus (Num x) (Num y) = Num (x - y)"
| "number_minus _ _ = NaN"

text \<open>The comparison \<open>\<le>\<close> of the language on numbers: false when a side is \<open>NaN\<close>.\<close>

fun number_le :: "js_number \<Rightarrow> js_number \<Rightarrow> bool" where
  "number_le (Num x) (Num y) = (x \<le> y)"
| "number_le _ _ = False"

text \<open>
  \<open>sort(comparefn)\<close> calls the comparator and reads \<open>NaN\<close> as \<open>0\<close>. When the comparator so
  read is not consistent on the elements, the standard leaves the order to the
  implementation; the model then returns what insertion from the right returns.
\<close>

definition sort_value :: "js_number \<Rightarrow> int" where
  "sort_value v = (case v of NaN \<Rightarrow> 0 | Num n \<Rightarrow> n)"

definition sort_reads :: "('a \<Rightarrow> 'a \<Rightarrow> js_number) \<Rightarrow> 'a \<Rightarrow> 'a \<Rightarrow> int" where
  "sort_reads comparefn a b = sort_value (comparefn a b)"

definition array_sort_with :: "('a \<Rightarrow> 'a \<Rightarrow> js_number) \<Rightarrow> 'a list \<Rightarrow> 'a list" where
  "array_sort_with comparefn xs = array_sort (sort_reads comparefn) xs"

text \<open>The comparison \<open>sort()\<close> uses when called without a comparator, on strings.\<close>

definition default_compare :: "js_string \<Rightarrow> js_string \<Rightarrow> int" where
  "default_compare x y = (if x < y then - 1 else if y < x then 1 else 0)"

text \<open>
  The standard's notion of a consistent comparator: equal to itself, antisymmetric in
  sign, transitive.
\<close>

definition consistent :: "('a \<Rightarrow> 'a \<Rightarrow> int) \<Rightarrow> bool" where
  "consistent cmp \<longleftrightarrow>
     (\<forall>a. cmp a a = 0) \<and>
     (\<forall>a b. cmp a b < 0 \<longleftrightarrow> 0 < cmp b a) \<and>
     (\<forall>a b c. cmp a b \<le> 0 \<and> cmp b c \<le> 0 \<longrightarrow> cmp a c \<le> 0)"

text \<open>
  A \<open>Set\<close> keeps its elements in insertion order; \<open>add\<close> of an element already present
  changes nothing.
\<close>

definition set_add :: "'a list \<Rightarrow> 'a \<Rightarrow> 'a list" where
  "set_add s x = (if x \<in> set s then s else s @ [x])"

section \<open>The data model of \<open>BlogList\<close>\<close>

text \<open>
  \<open>pubDate\<close> is a \<open>Date\<close>: its time value (milliseconds since the epoch), or \<open>None\<close> for
  an Invalid Date. \<open>new Date(d).getTime()\<close> returns the time value, \<open>NaN\<close> for an Invalid
  Date. The sort only uses the sign of a difference of two time values, so the difference
  is taken exactly. \<open>heroImage\<close> is an opaque reference that the list logic never reads.
  \<open>tags\<close> is optional.
\<close>

record post_data =
  title :: js_string
  description :: js_string
  pubDate :: "int option"
  heroImage :: "nat option"
  tags :: "js_string list option"

definition getTime :: "int option \<Rightarrow> js_number" where
  "getTime d = (case d of None \<Rightarrow> NaN | Some t \<Rightarrow> Num t)"

record post =
  post_id :: js_string
  slug :: js_string
  data :: post_data
  readingTime :: js_string

text \<open>The three \<open>useState\<close> cells of the component and their initial values.\<close>

record query_state =
  search :: js_string
  selectedTags :: "js_string list"
  sortOrder :: js_string

definition initial_state :: query_state where
  "initial_state = \<lparr>search = [], selectedTags = [], sortOrder = js ''newest''\<rparr>"

text \<open>The values the type of \<open>sortOrder\<close> lists, and that the \<open>select\<close> element offers.\<close>

definition sort_orders :: "js_string list" where
  "sort_orders = [js ''newest'', js ''oldest'', js ''a-z'', js ''z-a'']"

section \<open>The operations\<close>

text \<open>
  The state setters. \<open>setSearch\<close> and \<open>setSortOrder\<close> are the setters \<open>useState\<close>
  returns: they store the value they are given. The \<open>select\<close> handler passes
  \<open>e.target.value as any\<close>, so at run time any string is stored.
\<close>

definition setSearch :: "js_string \<Rightarrow> query_state \<Rightarrow> query_state" where
  "setSearch v st = st\<lparr>search := v\<rparr>"

definition setSortOrder :: "js_string \<Rightarrow> query_state \<Rightarrow> query_state" where
  "setSortOrder v st = st\<lparr>sortOrder := v\<rparr>"

definition toggleTag :: "js_string \<Rightarrow> query_state \<Rightarrow> query_state" where
  "toggleTag tag st =
     st\<lparr>selectedTags :=
          (let prev = selectedTags st
           in if tag \<in> set prev then filter (\<lambda>t. t \<noteq> tag) prev else prev @ [tag])\<rparr>"

text \<open>\<open>allTags\<close>: every tag of every post into a \<open>Set\<close>, then \<open>Array.from(tags).sort()\<close>.\<close>

definition allTags :: "post list \<Rightarrow> js_string list" where
  "allTags posts =
     array_sort default_compare
       (fold (\<lambda>post acc.
                case tags (data post) of
                  None \<Rightarrow> acc
                | Some ts \<Rightarrow> fold (\<lambda>tag s. set_add s tag) ts acc)
             posts [])"

text \<open>
  The filter of \<open>filteredPosts\<close>. \<open>String.prototype.toLowerCase\<close> is a builtin whose
  result depends on the Unicode tables of the platform; it is a parameter here.
  \<open>post.data.tags?.includes(tag)\<close> is \<open>undefined\<close>, hence false, when \<open>tags\<close> is absent.
\<close>

definition matchesSearch :: "(js_string \<Rightarrow> js_string) \<Rightarrow> js_string \<Rightarrow> post \<Rightarrow> bool" where
  "matchesSearch toLowerCase q post \<longleftrightarrow>
     string_includes (toLowerCase (title (data post))) (toLowerCase q) \<or>
     string_includes (toLowerCase (description (data post))) (toLowerCase q)"

definition tags_include :: "post \<Rightarrow> js_string \<Rightarrow> bool" where
  "tags_include post tag =
     (case tags (data post) of None \<Rightarrow> False | Some ts \<Rightarrow> tag \<in> set ts)"

text \<open>\<open>matchesTags\<close> of \<open>components/blog/BlogList.tsx\<close> (\<open>every\<close>).\<close>

definition matchesTags :: "js_string list \<Rightarrow> post \<Rightarrow> bool" where
  "matchesTags sel post \<longleftrightarrow> length sel = 0 \<or> list_all (tags_include post) sel"

text \<open>\<open>matchesTags\<close> of the second copy of the component (\<open>some\<close>).\<close>

definition matchesTags_some :: "js_string list \<Rightarrow> post \<Rightarrow> bool" where
  "matchesTags_some sel post \<longleftrightarrow> length sel = 0 \<or> list_ex (tags_include post) sel"

text \<open>
  The comparator of \<open>filteredPosts\<close>, the same in both copies.
  \<open>String.prototype.localeCompare\<close> depends on the collation of the platform's locale;
  it is a parameter, and returns a negative number, a positive number or zero.
\<close>

definition compareFn ::
  "(js_string \<Rightarrow> js_string \<Rightarrow> int) \<Rightarrow> js_string \<Rightarrow> post \<Rightarrow> post \<Rightarrow> js_number" where
  "compareFn localeCompare order a b =
     (if order = js ''newest''
      then number_minus (getTime (pubDate (data b))) (getTime (pubDate (data a)))
      else if order = js ''oldest''
      then number_minus (getTime (pubDate (data a))) (getTime (pubDate (data b)))
      else if order = js ''a-z'' then Num (localeCompare (title (data a)) (title (data b)))
      else Num (localeCompare (title (data b)) (title (data a))))"

text \<open>\<open>filteredPosts\<close> of \<open>components/blog/BlogList.tsx\<close>.\<close>

definition filteredPosts ::
  "(js_string \<Rightarrow> js_string) \<Rightarrow> (js_string \<Rightarrow> js_string \<Rightarrow> int) \<Rightarrow>
   post list \<Rightarrow> query_state \<Rightarrow> post list" where
  "filteredPosts toLowerCase localeCompare posts st =
     array_sort_with (compareFn localeCompare (sortOrder st))
       (filter (\<lambda>post. matchesSearch toLowerCase (search st) post \<and>
                        matchesTags (selectedTags st) post) posts)"

text \<open>\<open>filteredPosts\<close> of the second copy.\<close>

definition filteredPosts_some ::
  "(js_string \<Rightarrow> js_string) \<Rightarrow> (js_string \<Rightarrow> js_string \<Rightarrow> int) \<Rightarrow>
   post list \<Rightarrow> query_state \<Rightarrow> post list" where
  "filteredPosts_some toLowerCase localeCompare posts st =
     array_sort_with (compareFn localeCompare (sortOrder st))
       (filter (\<lambda>post. matchesSearch toLowerCase (search st) post \<and>
                        matchesTags_some (selectedTags st) post) posts)"

section \<open>Notions the properties are stated with\<close>

text \<open>
  The Unicode code points a string encodes: a high surrogate followed by a low surrogate
  is one code point above \<open>0xFFFF\<close>, any other code unit is its own code point.
  \<open>codepoint_le\<close> is the lexicographic order of the code point sequences.
\<close>

fun code_points :: "js_string \<Rightarrow> nat list" where
  "code_points [] = []"
| "code_points [h] = [unat h]"
| "code_points (h # l # s) =
     (if 0xD800 \<le> h \<and> h \<le> 0xDBFF \<and> 0xDC00 \<le> l \<and> l \<le> 0xDFFF
      then (0x10000 + (unat h - 0xD800) * 0x400 + (unat l - 0xDC00)) # code_points s
      else unat h # code_points (l # s))"

definition codepoint_le :: "js_string \<Rightarrow> js_string \<Rightarrow> bool" where
  "codepoint_le a b \<longleftrightarrow> code_points a \<le> code_points b"

text \<open>A post with a valid date, and the two date orders of a list of posts.\<close>

definition valid_date :: "post \<Rightarrow> bool" where
  "valid_date p \<longleftrightarrow> pubDate (data p) \<noteq> None"

definition newer_first :: "post \<Rightarrow> post \<Rightarrow> bool" where
  "newer_first a b \<longleftrightarrow> number_le (getTime (pubDate (data b))) (getTime (pubDate (data a)))"

definition older_first :: "post \<Rightarrow> post \<Rightarrow> bool" where
  "older_first a b \<longleftrightarrow> number_le (getTime (pubDate (data a))) (getTime (pubDate (data b)))"



text \<open>
  The comparator of the two date orders on posts with valid dates, continued to all
  posts by the time value \<open>0\<close>; a device of the proofs.
\<close>

definition time_or_zero :: "post \<Rightarrow> int" where
  "time_or_zero p = (case pubDate (data p) of None \<Rightarrow> 0 | Some t \<Rightarrow> t)"

definition date_cmp :: "js_string \<Rightarrow> post \<Rightarrow> post \<Rightarrow> int" where
  "date_cmp order a b =
     (if order = js ''newest'' then time_or_zero b - time_or_zero a
      else time_or_zero a - time_or_zero b)"

text \<open>The loop of \<open>allTags\<close> that fills the \<open>Set\<close>, from any starting content.\<close>

definition collect_tags :: "post list \<Rightarrow> js_string list \<Rightarrow> js_string list" where
  "collect_tags posts acc =
     fold (\<lambda>post acc. case tags (data post) of None \<Rightarrow> acc
                       | Some ts \<Rightarrow> fold (\<lambda>tag s. set_add s tag) ts acc) posts acc"

text \<open>The filter of each copy, as one predicate on posts.\<close>

definition keeps :: "(js_string \<Rightarrow> js_string) \<Rightarrow> query_state \<Rightarrow> post \<Rightarrow> bool" where
  "keeps toLowerCase st post \<longleftrightarrow>
     matchesSearch toLowerCase (search st) post \<and> matchesTags (selectedTags st) post"

definition keeps_some :: "(js_string \<Rightarrow> js_string) \<Rightarrow> query_state \<Rightarrow> post \<Rightarrow> bool" where
  "keeps_some toLowerCase st post \<longleftrightarrow>
     matchesSearch toLowerCase (search st) post \<and> matchesTags_some (selectedTags st) post"

section \<open>Concrete instances for examples\<close>

text \<open>
  On strings of ASCII characters \<open>toLowerCase\<close> maps \<open>A\<close>..\<open>Z\<close> to \<open>a\<close>..\<open>z\<close> and leaves
  the rest; \<open>ascii_lower\<close> is that function. In the examples \<open>default_compare\<close> stands
  in for \<open>localeCompare\<close>: the titles used are capitalised English words, which a
  collation orders as the code units do.
\<close>

definition ascii_lower :: "js_string \<Rightarrow> js_string" where
  "ascii_lower s = map (\<lambda>c. if 0x41 \<le> c \<and> c \<le> 0x5A then c + 0x20 else c) s"

definition mk_post :: "string \<Rightarrow> string \<Rightarrow> int option \<Rightarrow> string list option \<Rightarrow> post" where
  "mk_post t d time ts =
     \<lparr>post_id = js t, slug = js t,
      data = \<lparr>title = js t, description = js d, pubDate = time, heroImage = None,
              tags = map_option (map js) ts\<rparr>,
      readingTime = js ''1 min read''\<rparr>"

definition alpha :: post where
  "alpha = mk_post ''Alpha'' ''first'' (Some 1672531200000) (Some [''x''])"

definition beta :: post where
  "beta = mk_post ''Beta'' ''second'' (Some 1704067200000) (Some [''y''])"

definition alpha_again :: post where
  "alpha_again = mk_post ''Alpha'' ''revised'' (Some 1700000000000) (Some [''x'', ''y''])"

definition untagged :: post where
  "untagged = mk_post ''Gamma'' ''third'' (Some 1704067200000) None"

text \<open>Two posts with the time values 1 and 2, and a post with an Invalid Date.\<close>

definition old_post :: post where
  "old_post = mk_post ''Old'' ''time 1'' (Some 1) None"

definition new_post :: post where
  "new_post = mk_post ''New'' ''time 2'' (Some 2) None"

definition bad_post :: post where
  "bad_post = mk_post ''Bad'' ''invalid date'' None None"

text \<open>
  A post whose two tags are U+FF5E (one code unit) and U+1F600 (a surrogate pair).
\<close>

definition astral_post :: post where
  "astral_post =
     \<lparr>post_id = js ''p'', slug = js ''p'',
      data = \<lparr>title = js ''Symbols'', description = js ''two tags'', pubDate = Some 0,
              heroImage = None, tags = Some [[0xFF5E], [0xD83D, 0xDE00]]\<rparr>,
      readingTime = js ''1 min read''\<rparr>"

section \<open>Properties of the builtins' models\<close>

lemma starts_with_iff: "starts_with s t \<longleftrightarrow> (\<exists>ss. s = t @ ss)"
  by (induction s t rule: starts_with.induct) auto

lemma string_includes_iff: "string_includes s t \<longleftrightarrow> (\<exists>ps ss. s = ps @ t @ ss)"
proof (induction s)
  case Nil
  show ?case by (cases t) auto
next
  case (Cons d s)
  show ?case
  proof
    assume "string_includes (d # s) t"
    then consider "starts_with (d # s) t" | "string_includes s t" by auto
    then show "\<exists>ps ss. d # s = ps @ t @ ss"
    proof cases
      case 1
      then obtain ss where "d # s = t @ ss" by (auto simp: starts_with_iff)
      then have "d # s = [] @ t @ ss" by simp
      then show ?thesis by blast
    next
      case 2
      then obtain ps ss where "s = ps @ t @ ss" using Cons.IH by blast
      then have "d # s = (d # ps) @ t @ ss" by simp
      then show ?thesis by blast
    qed
  next
    assume "\<exists>ps ss. d # s = ps @ t @ ss"
    then obtain ps ss where eq: "d # s = ps @ t @ ss" by blast
    show "string_includes (d # s) t"
    proof (cases ps)
      case Nil
      with eq have "starts_with (d # s) t" by (auto simp: starts_with_iff)
      then show ?thesis by simp
    next
      case (Cons e ps')
      with eq have "s = ps' @ t @ ss" by simp
      then have "string_includes s t" using Cons.IH by blast
      then show ?thesis by simp
    qed
  qed
qed

subsection \<open>Sorting with a comparator\<close>

lemma mset_insort_cmp: "mset (insort_cmp cmp x ys) = add_mset x (mset ys)"
  by (induction ys) simp_all

lemma mset_array_sort: "mset (array_sort cmp xs) = mset xs"
  unfolding array_sort_def by (induction xs) (simp_all add: mset_insort_cmp)

lemma set_array_sort: "set (array_sort cmp xs) = set xs"
  using mset_array_sort [of cmp xs] by (metis set_mset_mset)

lemma distinct_array_sort: "distinct (array_sort cmp xs) = distinct xs"
  using mset_array_sort [of cmp xs] by (metis distinct_count_atmost_1 set_mset_mset)

lemma array_sort_Nil: "array_sort cmp [] = []"
  by (simp add: array_sort_def)

lemma array_sort_Cons: "array_sort cmp (x # xs) = insort_cmp cmp x (array_sort cmp xs)"
  by (simp add: array_sort_def)

lemma consistent_refl: "consistent cmp \<Longrightarrow> cmp a a = 0"
  unfolding consistent_def by blast

lemma consistent_flip: "consistent cmp \<Longrightarrow> (cmp a b < 0) = (0 < cmp b a)"
  unfolding consistent_def by blast

lemma consistent_trans: "consistent cmp \<Longrightarrow> cmp a b \<le> 0 \<Longrightarrow> cmp b c \<le> 0 \<Longrightarrow> cmp a c \<le> 0"
  unfolding consistent_def by blast

lemma consistent_total: 
  assumes "consistent cmp" "\<not> cmp a b \<le> 0" shows "cmp b a \<le> 0"
proof -
  have "0 < cmp a b" using assms(2) by simp
  then have "cmp b a < 0" using consistent_flip [OF assms(1), of b a] by simp
  then show ?thesis by simp
qed

lemma consistent_sym:
  assumes "consistent cmp" "cmp a b = 0" shows "cmp b a = 0"
proof -
  have "\<not> cmp a b < 0" "\<not> 0 < cmp a b" using assms(2) by simp_all
  then have "\<not> 0 < cmp b a" "\<not> cmp b a < 0"
    using consistent_flip [OF assms(1), of a b] consistent_flip [OF assms(1), of b a] by blast+
  then show ?thesis by linarith
qed

lemma consistent_antisym:
  assumes "consistent cmp" "cmp a b \<le> 0" "cmp b a \<le> 0" shows "cmp a b = 0"
proof -
  have "\<not> 0 < cmp b a" using assms(3) by simp
  then have "\<not> cmp a b < 0" using consistent_flip [OF assms(1), of a b] by blast
  then show ?thesis using assms(2) by linarith
qed

lemma consistent_ge:
  assumes "consistent cmp" shows "(0 \<le> cmp a b) = (cmp b a \<le> 0)"
proof -
  have "(cmp a b < 0) = (0 < cmp b a)" using assms by (rule consistent_flip)
  then show ?thesis by linarith
qed

lemma consistent_tie_trans:
  assumes "consistent cmp" "cmp a b = 0" "cmp b c = 0"
  shows "cmp a c = 0"
proof -
  have ba: "cmp b a = 0" using assms(1,2) by (rule consistent_sym)
  have cb: "cmp c b = 0" using assms(1,3) by (rule consistent_sym)
  have "cmp a b \<le> 0" "cmp b c \<le> 0" "cmp c b \<le> 0" "cmp b a \<le> 0"
    using assms(2,3) ba cb by simp_all
  then have "cmp a c \<le> 0" "cmp c a \<le> 0"
    using consistent_trans [OF assms(1)] by blast+
  then show ?thesis using consistent_antisym [OF assms(1)] by blast
qed

lemma set_insort_cmp: "set (insort_cmp cmp x ys) = insert x (set ys)"
  by (induction ys) auto

lemma sorted_insort_cmp:
  assumes "consistent cmp"
  shows "sorted_wrt (\<lambda>a b. cmp a b \<le> 0) ys \<Longrightarrow> sorted_wrt (\<lambda>a b. cmp a b \<le> 0) (insort_cmp cmp x ys)"
proof (induction ys)
  case Nil
  show ?case by simp
next
  case (Cons y ys)
  show ?case
  proof (cases "cmp x y \<le> 0")
    case True
    then have "\<forall>z\<in>set ys. cmp x z \<le> 0"
      using Cons.prems consistent_trans [OF assms, of x y] by auto
    with True Cons.prems show ?thesis by simp
  next
    case False
    then have "cmp y x \<le> 0" using consistent_total [OF assms] by blast
    with False Cons show ?thesis by (auto simp: set_insort_cmp)
  qed
qed

lemma sorted_array_sort:
  "consistent cmp \<Longrightarrow> sorted_wrt (\<lambda>a b. cmp a b \<le> 0) (array_sort cmp xs)"
  by (induction xs) (simp_all add: array_sort_Nil array_sort_Cons sorted_insort_cmp)

lemma filter_insort_cmp_tie:
  assumes "consistent cmp"
  shows "filter (\<lambda>q. cmp k q = 0) (insort_cmp cmp x ys) =
         (if cmp k x = 0 then x # filter (\<lambda>q. cmp k q = 0) ys else filter (\<lambda>q. cmp k q = 0) ys)"
proof (induction ys)
  case Nil
  show ?case by simp
next
  case (Cons y ys)
  have "cmp x y = 0" if "cmp k x = 0" "cmp k y = 0"
  proof -
    have "cmp x k = 0" using assms that(1) by (rule consistent_sym)
    then show ?thesis using that(2) consistent_tie_trans [OF assms, of x k y] by blast
  qed
  with Cons show ?case by auto
qed

lemma array_sort_stable:
  "consistent cmp \<Longrightarrow>
   filter (\<lambda>q. cmp k q = 0) (array_sort cmp xs) = filter (\<lambda>q. cmp k q = 0) xs"
  by (induction xs) (simp_all add: array_sort_Nil array_sort_Cons filter_insort_cmp_tie)

lemma insort_cmp_cong:
  "(\<And>y. y \<in> set ys \<Longrightarrow> cmp x y = cmp' x y) \<Longrightarrow> insort_cmp cmp x ys = insort_cmp cmp' x ys"
  by (induction ys) auto

lemma array_sort_cong:
  "(\<And>x y. x \<in> set xs \<Longrightarrow> y \<in> set xs \<Longrightarrow> cmp x y = cmp' x y) \<Longrightarrow>
   array_sort cmp xs = array_sort cmp' xs"
proof (induction xs)
  case Nil
  show ?case by (simp add: array_sort_Nil)
next
  case (Cons x xs)
  have "array_sort cmp xs = array_sort cmp' xs"
    using Cons.prems by (intro Cons.IH) simp_all
  moreover have "insort_cmp cmp x (array_sort cmp' xs) = insort_cmp cmp' x (array_sort cmp' xs)"
    using Cons.prems by (intro insort_cmp_cong) (simp add: set_array_sort)
  ultimately show ?case by (simp add: array_sort_Cons)
qed

lemma mset_array_sort_with: "mset (array_sort_with comparefn xs) = mset xs"
  by (simp add: array_sort_with_def mset_array_sort)

lemma set_array_sort_with: "set (array_sort_with comparefn xs) = set xs"
  by (simp add: array_sort_with_def set_array_sort)

lemma consistent_default_compare: "consistent default_compare"
  unfolding consistent_def default_compare_def by (auto split: if_splits)

lemma default_compare_le: "(default_compare a b \<le> 0) = (a \<le> b)"
  unfolding default_compare_def by auto

text \<open>
  The two requirements determine the result, so \<open>array_sort\<close> is the only function that
  meets them: a list that is ordered by the comparator and keeps every class of ties in the
  order of the input is the list \<open>array_sort\<close> returns.
\<close>

lemma stable_sorted_unique:
  assumes c: "consistent cmp"
  shows "sorted_wrt (\<lambda>a b. cmp a b \<le> 0) ys \<Longrightarrow> sorted_wrt (\<lambda>a b. cmp a b \<le> 0) zs \<Longrightarrow>
         (\<And>k. filter (\<lambda>q. cmp k q = 0) ys = filter (\<lambda>q. cmp k q = 0) zs) \<Longrightarrow> ys = zs"
proof (induction ys arbitrary: zs)
  case Nil
  show ?case
  proof (cases zs)
    case Nil
    then show ?thesis by simp
  next
    case (Cons z zs')
    have "filter (\<lambda>q. cmp z q = 0) zs = []" using Nil.prems(3) [of z] by simp
    then show ?thesis using Cons consistent_refl [OF c, of z] by simp
  qed
next
  case (Cons y ys)
  have "filter (\<lambda>q. cmp y q = 0) zs = y # filter (\<lambda>q. cmp y q = 0) ys"
    using Cons.prems(3) [of y] consistent_refl [OF c, of y] by simp
  then obtain z zs' where zs: "zs = z # zs'" by (cases zs) auto
  have "filter (\<lambda>q. cmp z q = 0) (y # ys) = z # filter (\<lambda>q. cmp z q = 0) zs'"
    using Cons.prems(3) [of z] consistent_refl [OF c, of z] zs by simp
  then have "z \<in> set (filter (\<lambda>q. cmp z q = 0) (y # ys))" by (simp only: list.set_intros)
  then have "z \<in> set (y # ys)" using filter_is_subset by fast
  then have zin: "z = y \<or> z \<in> set ys" by simp
  have "y \<in> set (filter (\<lambda>q. cmp y q = 0) zs)"
    using \<open>filter (\<lambda>q. cmp y q = 0) zs = y # filter (\<lambda>q. cmp y q = 0) ys\<close>
    by (simp only: list.set_intros)
  then have "y \<in> set zs" using filter_is_subset by fast
  then have yin: "y = z \<or> y \<in> set zs'" using zs by simp
  have yz: "cmp y z \<le> 0" using zin Cons.prems(1) consistent_refl [OF c, of y] by auto
  have zy: "cmp z y \<le> 0" using yin Cons.prems(2) zs consistent_refl [OF c, of z] by auto
  have tie: "cmp y z = 0" using c yz zy by (rule consistent_antisym)
  have "filter (\<lambda>q. cmp y q = 0) (y # ys) = filter (\<lambda>q. cmp y q = 0) (z # zs')"
    using Cons.prems(3) [of y] zs by simp
  then have eq: "y = z" using tie consistent_refl [OF c, of y] by simp
  have "filter (\<lambda>q. cmp k q = 0) ys = filter (\<lambda>q. cmp k q = 0) zs'" for k
    using Cons.prems(3) [of k] zs eq by (simp split: if_splits)
  moreover have "sorted_wrt (\<lambda>a b. cmp a b \<le> 0) ys" "sorted_wrt (\<lambda>a b. cmp a b \<le> 0) zs'"
    using Cons.prems(1,2) zs by simp_all
  ultimately have "ys = zs'" using Cons.IH by blast
  then show ?case using zs eq by simp
qed

lemma array_sort_unique:
  assumes "consistent cmp" "sorted_wrt (\<lambda>a b. cmp a b \<le> 0) ys"
    and "\<And>k. filter (\<lambda>q. cmp k q = 0) ys = filter (\<lambda>q. cmp k q = 0) xs"
  shows "ys = array_sort cmp xs"
proof (rule stable_sorted_unique [OF assms(1,2)])
  show "sorted_wrt (\<lambda>a b. cmp a b \<le> 0) (array_sort cmp xs)"
    using assms(1) by (rule sorted_array_sort)
  show "filter (\<lambda>q. cmp k q = 0) ys = filter (\<lambda>q. cmp k q = 0) (array_sort cmp xs)" for k
    using assms(3) [of k] array_sort_stable [OF assms(1), of k xs] by simp
qed

section \<open>Lemmas about the component\<close>

subsection \<open>The tag vocabulary\<close>

lemma set_fold_set_add: "set (fold (\<lambda>tag s. set_add s tag) ts acc) = set acc \<union> set ts"
  by (induction ts arbitrary: acc) (auto simp: set_add_def)

lemma distinct_fold_set_add:
  "distinct acc \<Longrightarrow> distinct (fold (\<lambda>tag s. set_add s tag) ts acc)"
  by (induction ts arbitrary: acc) (auto simp: set_add_def)

lemma set_collect_tags:
  "set (collect_tags posts acc) =
     set acc \<union> {t. \<exists>p\<in>set posts. \<exists>ts. tags (data p) = Some ts \<and> t \<in> set ts}"
  unfolding collect_tags_def
proof (induction posts arbitrary: acc)
  case Nil
  show ?case by simp
next
  case (Cons p posts)
  show ?case
  proof (cases "tags (data p)")
    case None
    then show ?thesis using Cons.IH [of acc] by auto
  next
    case (Some ts)
    then show ?thesis
      using Cons.IH [of "fold (\<lambda>tag s. set_add s tag) ts acc"]
      by (auto simp: set_fold_set_add)
  qed
qed

lemma distinct_collect_tags: "distinct acc \<Longrightarrow> distinct (collect_tags posts acc)"
  unfolding collect_tags_def
  by (induction posts arbitrary: acc) (auto simp: distinct_fold_set_add split: option.splits)

lemma allTags_collect: "allTags posts = array_sort default_compare (collect_tags posts [])"
  by (simp add: allTags_def collect_tags_def)

lemma sorted_wrt_default_compare:
  "sorted_wrt (\<lambda>a b. default_compare a b \<le> 0) xs = sorted xs"
  by (simp add: default_compare_le)


subsection \<open>The tag filters\<close>

lemma matchesTags_iff: "matchesTags sel p \<longleftrightarrow> set sel = {} \<or> (\<forall>t\<in>set sel. tags_include p t)"
  by (simp add: matchesTags_def list_all_iff)

lemma matchesTags_some_iff:
  "matchesTags_some sel p \<longleftrightarrow> set sel = {} \<or> (\<exists>t\<in>set sel. tags_include p t)"
  by (simp add: matchesTags_some_def list_ex_iff)

lemma keeps_cong:
  "search st' = search st \<Longrightarrow> set (selectedTags st') = set (selectedTags st) \<Longrightarrow>
   keeps lower st' = keeps lower st"
  by (rule ext) (simp add: keeps_def matchesTags_iff)

lemma keeps_some_cong:
  "search st' = search st \<Longrightarrow> set (selectedTags st') = set (selectedTags st) \<Longrightarrow>
   keeps_some lower st' = keeps_some lower st"
  by (rule ext) (simp add: keeps_some_def matchesTags_some_iff)

lemma filteredPosts_keeps:
  "filteredPosts lower lc posts st =
     array_sort_with (compareFn lc (sortOrder st)) (filter (keeps lower st) posts)"
  by (simp add: filteredPosts_def keeps_def [abs_def])

lemma filteredPosts_some_keeps:
  "filteredPosts_some lower lc posts st =
     array_sort_with (compareFn lc (sortOrder st)) (filter (keeps_some lower st) posts)"
  by (simp add: filteredPosts_some_def keeps_some_def [abs_def])

subsection \<open>The comparator\<close>

lemma js_orders_distinct:
  "js ''newest'' \<noteq> js ''oldest''" "js ''newest'' \<noteq> js ''a-z''" "js ''oldest'' \<noteq> js ''a-z''"
  "js ''z-a'' \<noteq> js ''newest''" "js ''z-a'' \<noteq> js ''oldest''" "js ''z-a'' \<noteq> js ''a-z''"
  by (simp_all add: js_def)

lemma compareFn_other:
  "order \<noteq> js ''newest'' \<Longrightarrow> order \<noteq> js ''oldest'' \<Longrightarrow> order \<noteq> js ''a-z'' \<Longrightarrow>
   compareFn lc order a b = Num (lc (title (data b)) (title (data a)))"
  by (simp add: compareFn_def)

lemma sort_reads_az:
  "sort_reads (compareFn lc (js ''a-z'')) a b = lc (title (data a)) (title (data b))"
  by (simp add: sort_reads_def sort_value_def compareFn_def js_orders_distinct [symmetric])

lemma sort_reads_other:
  "order \<noteq> js ''newest'' \<Longrightarrow> order \<noteq> js ''oldest'' \<Longrightarrow> order \<noteq> js ''a-z'' \<Longrightarrow>
   sort_reads (compareFn lc order) a b = lc (title (data b)) (title (data a))"
  by (simp add: sort_reads_def sort_value_def compareFn_other)

lemma sort_reads_date:
  assumes "order = js ''newest'' \<or> order = js ''oldest''" "valid_date a" "valid_date b"
  shows "sort_reads (compareFn lc order) a b = date_cmp order a b"
proof -
  obtain x y where "pubDate (data a) = Some x" "pubDate (data b) = Some y"
    using assms(2,3) by (auto simp: valid_date_def)
  then show ?thesis
    using assms(1)
    by (auto simp: sort_reads_def sort_value_def compareFn_def date_cmp_def time_or_zero_def
        getTime_def js_orders_distinct js_orders_distinct [symmetric])
qed

lemma consistent_date_cmp: "consistent (date_cmp order)"
  unfolding consistent_def date_cmp_def by auto

lemma array_sort_with_date:
  assumes "order = js ''newest'' \<or> order = js ''oldest''" "\<forall>p\<in>set F. valid_date p"
  shows "array_sort_with (compareFn lc order) F = array_sort (date_cmp order) F"
  unfolding array_sort_with_def
  using assms by (intro array_sort_cong sort_reads_date) simp_all

lemma consistent_sort_reads_title:
  assumes "consistent lc" "order \<noteq> js ''newest''" "order \<noteq> js ''oldest''"
  shows "consistent (sort_reads (compareFn lc order))"
proof -
  have r: "\<And>a. lc a a = 0"
    using assms(1) by (rule consistent_refl)
  have f: "\<And>a b. (lc a b < 0) = (0 < lc b a)"
    using assms(1) by (rule consistent_flip)
  have t: "\<And>a b c. lc a b \<le> 0 \<Longrightarrow> lc b c \<le> 0 \<Longrightarrow> lc a c \<le> 0"
    using assms(1) by (rule consistent_trans)
  show ?thesis
  proof (cases "order = js ''a-z''")
    case True
    have eq: "sort_reads (compareFn lc order) = (\<lambda>a b. lc (title (data a)) (title (data b)))"
      unfolding True by (intro ext) (rule sort_reads_az)
    show ?thesis unfolding consistent_def eq
      using r f t by blast
  next
    case False
    have eq: "sort_reads (compareFn lc order) = (\<lambda>a b. lc (title (data b)) (title (data a)))"
      using assms(2,3) False by (intro ext) (simp add: sort_reads_other)
    show ?thesis unfolding consistent_def eq
      using r f t by blast
  qed
qed

subsection \<open>Toggling a tag\<close>

lemma toggleTag_other: "search (toggleTag t st) = search st" "sortOrder (toggleTag t st) = sortOrder st"
  by (simp_all add: toggleTag_def)

lemma set_toggleTag:
  "set (selectedTags (toggleTag t st)) =
     (if t \<in> set (selectedTags st) then set (selectedTags st) - {t}
      else insert t (set (selectedTags st)))"
  by (auto simp: toggleTag_def Let_def)

lemma set_toggleTag_twice:
  "set (selectedTags (toggleTag t (toggleTag t st))) = set (selectedTags st)"
  by (auto simp: set_toggleTag)

lemma toggleTag_twice_absent:
  assumes "t \<notin> set (selectedTags st)"
  shows "toggleTag t (toggleTag t st) = st"
proof -
  have "filter (\<lambda>u. u \<noteq> t) (selectedTags st) = selectedTags st"
    using assms by (auto simp: filter_id_conv)
  then show ?thesis using assms by (simp add: toggleTag_def Let_def)
qed

subsection \<open>Ties\<close>





subsection \<open>Unfolding on examples\<close>

lemmas ex_defs = alpha_def beta_def untagged_def alpha_again_def old_post_def new_post_def
  bad_post_def mk_post_def js_def initial_state_def setSearch_def setSortOrder_def
  toggleTag_def Let_def

lemmas run_defs = filteredPosts_def filteredPosts_some_def matchesSearch_def matchesTags_def
  matchesTags_some_def tags_include_def compareFn_def array_sort_with_def sort_reads_def
  sort_value_def getTime_def array_sort_def default_compare_def ascii_lower_def

section \<open>Properties of the component\<close>

text \<open>
  C1, as amended. \<open>setSortOrder\<close> performs no validation and never fails: for every value,
  in the enumeration or not, it stores the value as \<open>sortOrder\<close> and leaves the search text
  and the selected tags as they were. With a value outside
  \<open>newest\<close>, \<open>oldest\<close>, \<open>a-z\<close>, \<open>z-a\<close> stored, the comparator takes its last branch, so the
  results of both copies are those of \<open>z-a\<close>. The operations are total functions: none of
  them has an error result.
\<close>

theorem setSortOrder_stores:
  "sortOrder (setSortOrder v st) = v \<and>
   search (setSortOrder v st) = search st \<and>
   selectedTags (setSortOrder v st) = selectedTags st \<and>
   (v \<notin> set sort_orders \<longrightarrow>
      compareFn localeCompare v = compareFn localeCompare (js ''z-a'') \<and>
      filteredPosts toLowerCase localeCompare posts (setSortOrder v st) =
        filteredPosts toLowerCase localeCompare posts (setSortOrder (js ''z-a'') st) \<and>
      filteredPosts_some toLowerCase localeCompare posts (setSortOrder v st) =
        filteredPosts_some toLowerCase localeCompare posts (setSortOrder (js ''z-a'') st))"
proof -
  have cmp: "compareFn localeCompare v = compareFn localeCompare (js ''z-a'')"
    if "v \<notin> set sort_orders"
    using that by (intro ext) (simp add: sort_orders_def compareFn_other js_orders_distinct)
  show ?thesis
    using cmp by (simp add: setSortOrder_def filteredPosts_def filteredPosts_some_def)
qed

text \<open>
  C1, instance of the amended statement: the value \<open>bogus\<close> is stored, and the two posts
  come out in the order of \<open>z-a\<close>.
\<close>

theorem setSortOrder_stores_witness:
  "js ''bogus'' \<notin> set sort_orders \<and>
   sortOrder (setSortOrder (js ''bogus'') initial_state) = js ''bogus'' \<and>
   filteredPosts ascii_lower default_compare [alpha, beta]
     (setSortOrder (js ''bogus'') initial_state) =
   filteredPosts ascii_lower default_compare [alpha, beta]
     (setSortOrder (js ''z-a'') initial_state) \<and>
   filteredPosts ascii_lower default_compare [alpha, beta]
     (setSortOrder (js ''bogus'') initial_state) = [beta, alpha]"
  using setSortOrder_stores [of "js ''bogus''" initial_state default_compare ascii_lower
      "[alpha, beta]"]
  by (simp add: sort_orders_def run_defs ex_defs)

text \<open>
  C1 as stated fails: \<open>bogus\<close> is outside the enumeration, and after
  \<open>setSortOrder\<close> the state is not the one before the call: \<open>sortOrder\<close> is \<open>bogus\<close>.
\<close>

theorem setSortOrder_unvalidated_counterexample:
  "js ''bogus'' \<notin> set sort_orders \<and>
   setSortOrder (js ''bogus'') initial_state \<noteq> initial_state \<and>
   sortOrder (setSortOrder (js ''bogus'') initial_state) = js ''bogus''"
  by (simp add: sort_orders_def setSortOrder_def initial_state_def js_def)

text \<open>
  C2. The two copies of the tag filter disagree. The filter of \<open>BlogList.tsx\<close> holds iff
  no tag is selected or every selected tag is among the post's tags; the filter of the
  second copy holds iff no tag is selected or some selected tag is among them. For the post
  \<open>alpha\<close>, tagged \<open>x\<close>, and the selection \<open>x\<close>, \<open>y\<close> the first is false and the second true,
  so the two functions are not equal.
\<close>

theorem tag_policies_disagree:
  "(matchesTags sel p \<longleftrightarrow> sel = [] \<or> (\<forall>t\<in>set sel. tags_include p t)) \<and>
   (matchesTags_some sel p \<longleftrightarrow> sel = [] \<or> (\<exists>t\<in>set sel. tags_include p t)) \<and>
   \<not> matchesTags [js ''x'', js ''y''] alpha \<and>
   matchesTags_some [js ''x'', js ''y''] alpha \<and>
   matchesTags \<noteq> matchesTags_some"
proof -
  have a: "\<not> matchesTags [js ''x'', js ''y''] alpha"
    by (simp add: matchesTags_def tags_include_def alpha_def mk_post_def js_def)
  have b: "matchesTags_some [js ''x'', js ''y''] alpha"
    by (simp add: matchesTags_some_def tags_include_def alpha_def mk_post_def js_def)
  have "matchesTags \<noteq> matchesTags_some" using a b by metis
  then show ?thesis using a b matchesTags_iff matchesTags_some_iff by simp
qed

text \<open>
  C2, the instance spelled out: the selection is not empty, \<open>y\<close> is selected and is not
  a tag of \<open>alpha\<close>, \<open>x\<close> is.
\<close>

theorem tag_policies_disagree_witness:
  "[js ''x'', js ''y''] \<noteq> [] \<and> js ''y'' \<in> set [js ''x'', js ''y''] \<and>
   \<not> tags_include alpha (js ''y'') \<and> tags_include alpha (js ''x'') \<and>
   \<not> matchesTags [js ''x'', js ''y''] alpha \<and> matchesTags_some [js ''x'', js ''y''] alpha"
  using tag_policies_disagree [of "[js ''x'', js ''y'']" alpha]
  by (simp add: tags_include_def ex_defs)

text \<open>
  C3, as amended. For every collection of posts, \<open>allTags\<close> contains exactly the strings
  that occur in the tag sequence of some post, has no duplicates, and is sorted ascending
  in the lexicographic order of the UTF-16 code units (the order \<open>\<le>\<close> of \<open>js_string\<close>);
  a post without tags or with an empty tag sequence contributes nothing, and the empty
  collection gives the empty vocabulary.
\<close>

theorem allTags_vocabulary:
  "set (allTags posts) = {t. \<exists>p\<in>set posts. \<exists>ts. tags (data p) = Some ts \<and> t \<in> set ts} \<and>
   distinct (allTags posts) \<and>
   sorted (allTags posts) \<and>
   allTags [] = []"
proof -
  have "set (allTags posts) = {t. \<exists>p\<in>set posts. \<exists>ts. tags (data p) = Some ts \<and> t \<in> set ts}"
    by (simp add: allTags_collect set_array_sort set_collect_tags)
  moreover have "distinct (allTags posts)"
    by (simp add: allTags_collect distinct_array_sort distinct_collect_tags)
  moreover have "sorted (allTags posts)"
    using sorted_array_sort [OF consistent_default_compare, of "collect_tags posts []"]
    by (simp add: allTags_collect sorted_wrt_default_compare)
  moreover have "allTags [] = []"
    by (simp add: allTags_def array_sort_Nil)
  ultimately show ?thesis by blast
qed

text \<open>
  C3, instance: four posts, one of them without tags, two tags in all.
\<close>

theorem allTags_vocabulary_witness:
  "set (allTags [alpha, beta, untagged, alpha_again]) = {js ''x'', js ''y''} \<and>
   allTags [alpha, beta, untagged, alpha_again] = [js ''x'', js ''y''] \<and>
   distinct (allTags [alpha, beta, untagged, alpha_again]) \<and>
   sorted (allTags [alpha, beta, untagged, alpha_again])"
  using allTags_vocabulary [of "[alpha, beta, untagged, alpha_again]"]
  by (simp add: allTags_def set_add_def array_sort_def default_compare_def ex_defs)

text \<open>
  C3 as stated fails: the order is not that of the code points. The tags U+FF5E and
  U+1F600 come out as U+1F600, U+FF5E, because the first code unit of the surrogate pair,
  \<open>0xD83D\<close>, is below \<open>0xFF5E\<close>.
\<close>

theorem allTags_codepoint_counterexample:
  "\<not> sorted_wrt codepoint_le (allTags [astral_post])"
  by (simp add: allTags_def astral_post_def array_sort_def set_add_def default_compare_def
      codepoint_le_def)

text \<open>
  C4. For every query and every post, the search predicate holds iff the lower-cased
  query, untrimmed, is a substring of the lower-cased title or of the lower-cased
  description. This holds for any lower-casing function; when that function maps the
  empty string to itself, as \<open>toLowerCase\<close> does, the empty query matches every post.
\<close>

theorem matchesSearch_substring:
  "(matchesSearch toLowerCase q p \<longleftrightarrow>
      (\<exists>ps ss. toLowerCase (title (data p)) = ps @ toLowerCase q @ ss) \<or>
      (\<exists>ps ss. toLowerCase (description (data p)) = ps @ toLowerCase q @ ss)) \<and>
   (toLowerCase [] = [] \<longrightarrow> matchesSearch toLowerCase [] p)"
proof -
  have "string_includes s []" for s :: js_string
    by (cases s) simp_all
  then show ?thesis
    by (simp add: matchesSearch_def string_includes_iff)
qed

text \<open>
  C4, instance: the empty query and the query \<open>alp\<close> on the posts \<open>Alpha\<close> and \<open>Beta\<close>.
\<close>

theorem matchesSearch_substring_witness:
  "ascii_lower [] = [] \<and> matchesSearch ascii_lower [] alpha \<and>
   matchesSearch ascii_lower (js ''alp'') alpha \<and> \<not> matchesSearch ascii_lower (js ''alp'') beta"
  using matchesSearch_substring [of ascii_lower "[]" alpha]
  by (simp add: ascii_lower_def matchesSearch_def alpha_def beta_def mk_post_def js_def)

text \<open>
  C5. In both copies the result holds exactly the posts of the collection that satisfy
  the search predicate and the copy's tag filter, each as many times as the collection
  holds it: a post of the collection is in the result iff both predicates hold for it.
\<close>

theorem filteredPosts_membership:
  "mset (filteredPosts toLowerCase localeCompare posts st) =
     filter_mset (keeps toLowerCase st) (mset posts) \<and>
   mset (filteredPosts_some toLowerCase localeCompare posts st) =
     filter_mset (keeps_some toLowerCase st) (mset posts) \<and>
   (\<forall>p\<in>set posts.
      (p \<in> set (filteredPosts toLowerCase localeCompare posts st) \<longleftrightarrow>
         matchesSearch toLowerCase (search st) p \<and> matchesTags (selectedTags st) p) \<and>
      (p \<in> set (filteredPosts_some toLowerCase localeCompare posts st) \<longleftrightarrow>
         matchesSearch toLowerCase (search st) p \<and> matchesTags_some (selectedTags st) p))"
proof -
  have m: "mset (filteredPosts toLowerCase localeCompare posts st) =
           filter_mset (keeps toLowerCase st) (mset posts)"
    by (simp only: filteredPosts_keeps mset_array_sort_with mset_filter)
  have ms: "mset (filteredPosts_some toLowerCase localeCompare posts st) =
            filter_mset (keeps_some toLowerCase st) (mset posts)"
    by (simp only: filteredPosts_some_keeps mset_array_sort_with mset_filter)
  have s: "set (filteredPosts toLowerCase localeCompare posts st) =
           {p \<in> set posts. keeps toLowerCase st p}"
    by (simp only: filteredPosts_keeps set_array_sort_with set_filter)
  have ss: "set (filteredPosts_some toLowerCase localeCompare posts st) =
            {p \<in> set posts. keeps_some toLowerCase st p}"
    by (simp only: filteredPosts_some_keeps set_array_sort_with set_filter)
  show ?thesis
    unfolding s ss using m ms by (simp add: keeps_def keeps_some_def)
qed

text \<open>
  C5, instance: with the search text \<open>alp\<close>, \<open>Alpha\<close> is kept and \<open>Beta\<close> is not.
\<close>

theorem filteredPosts_membership_witness:
  "alpha \<in> set [alpha, beta] \<and> beta \<in> set [alpha, beta] \<and>
   matchesSearch ascii_lower (js ''alp'') alpha \<and> matchesTags [] alpha \<and>
   alpha \<in> set (filteredPosts ascii_lower default_compare [alpha, beta]
                  (setSearch (js ''alp'') initial_state)) \<and>
   \<not> matchesSearch ascii_lower (js ''alp'') beta \<and>
   beta \<notin> set (filteredPosts ascii_lower default_compare [alpha, beta]
                  (setSearch (js ''alp'') initial_state))"
  using filteredPosts_membership [of ascii_lower default_compare "[alpha, beta]"
      "setSearch (js ''alp'') initial_state"]
  by (simp add: run_defs ex_defs)

text \<open>
  C6, as amended. The result of either copy is ordered as \<open>sortOrder\<close> prescribes: under
  \<open>newest\<close> every post has a time value at least that of every later post, under \<open>oldest\<close>
  at most that, provided every post of the result (that is, every post that passes the
  filter) has a valid date; under \<open>a-z\<close> every title compares less than or equal to every
  later title under \<open>localeCompare\<close>, under \<open>z-a\<close> greater than or equal, for a
  \<open>localeCompare\<close> that is a consistent comparator.
\<close>

theorem filteredPosts_ordered:
  assumes "R = filteredPosts toLowerCase localeCompare posts st \<or>
           R = filteredPosts_some toLowerCase localeCompare posts st"
  shows "(sortOrder st = js ''newest'' \<longrightarrow> (\<forall>p\<in>set R. valid_date p) \<longrightarrow>
            sorted_wrt newer_first R) \<and>
         (sortOrder st = js ''oldest'' \<longrightarrow> (\<forall>p\<in>set R. valid_date p) \<longrightarrow>
            sorted_wrt older_first R) \<and>
         (consistent localeCompare \<longrightarrow>
            (sortOrder st = js ''a-z'' \<longrightarrow>
               sorted_wrt (\<lambda>a b. localeCompare (title (data a)) (title (data b)) \<le> 0) R) \<and>
            (sortOrder st = js ''z-a'' \<longrightarrow>
               sorted_wrt (\<lambda>a b. localeCompare (title (data a)) (title (data b)) \<ge> 0) R))"
proof -
  obtain F where R: "R = array_sort_with (compareFn localeCompare (sortOrder st)) F"
    using assms by (auto simp: filteredPosts_def filteredPosts_some_def)
  have RF: "set R = set F"
    by (simp add: R set_array_sort_with)
  have date: "sorted_wrt (\<lambda>a b. date_cmp (sortOrder st) a b \<le> 0) R"
    if "sortOrder st = js ''newest'' \<or> sortOrder st = js ''oldest''" "\<forall>p\<in>set R. valid_date p"
  proof -
    have "R = array_sort (date_cmp (sortOrder st)) F"
      unfolding R using that RF by (intro array_sort_with_date) simp_all
    then show ?thesis
      using sorted_array_sort [OF consistent_date_cmp, of "sortOrder st" F] by simp
  qed
  have newest: "sorted_wrt newer_first R"
    if o: "sortOrder st = js ''newest''" and v: "\<forall>p\<in>set R. valid_date p"
  proof (rule sorted_wrt_mono_rel [OF _ date])
    show "sortOrder st = js ''newest'' \<or> sortOrder st = js ''oldest''" using o by simp
    show "\<forall>p\<in>set R. valid_date p" by (rule v)
    fix a b assume ab: "a \<in> set R" "b \<in> set R" and le: "date_cmp (sortOrder st) a b \<le> 0"
    have "valid_date a" "valid_date b" using ab v by blast+
    then obtain x y where xy: "pubDate (data a) = Some x" "pubDate (data b) = Some y"
      by (auto simp: valid_date_def)
    show "newer_first a b"
      using le o xy
      by (simp add: newer_first_def date_cmp_def time_or_zero_def getTime_def)
  qed
  have oldest: "sorted_wrt older_first R"
    if o: "sortOrder st = js ''oldest''" and v: "\<forall>p\<in>set R. valid_date p"
  proof (rule sorted_wrt_mono_rel [OF _ date])
    show "sortOrder st = js ''newest'' \<or> sortOrder st = js ''oldest''" using o by simp
    show "\<forall>p\<in>set R. valid_date p" by (rule v)
    fix a b assume ab: "a \<in> set R" "b \<in> set R" and le: "date_cmp (sortOrder st) a b \<le> 0"
    have "valid_date a" "valid_date b" using ab v by blast+
    then obtain x y where xy: "pubDate (data a) = Some x" "pubDate (data b) = Some y"
      by (auto simp: valid_date_def)
    show "older_first a b"
      using le o xy
      by (simp add: older_first_def date_cmp_def time_or_zero_def getTime_def
          js_orders_distinct js_orders_distinct [symmetric])
  qed
  have srt: "sorted_wrt (\<lambda>a b. sort_reads (compareFn localeCompare (sortOrder st)) a b \<le> 0) R"
    if "consistent (sort_reads (compareFn localeCompare (sortOrder st)))"
    unfolding R array_sort_with_def using that by (rule sorted_array_sort)
  have az: "sorted_wrt (\<lambda>a b. localeCompare (title (data a)) (title (data b)) \<le> 0) R"
    if c: "consistent localeCompare" and o: "sortOrder st = js ''a-z''"
    using srt consistent_sort_reads_title [OF c, of "sortOrder st"] o
    by (simp add: sort_reads_az js_orders_distinct [symmetric])
  have za: "sorted_wrt (\<lambda>a b. localeCompare (title (data a)) (title (data b)) \<ge> 0) R"
    if c: "consistent localeCompare" and o: "sortOrder st = js ''z-a''"
  proof -
    have "sorted_wrt (\<lambda>a b. localeCompare (title (data b)) (title (data a)) \<le> 0) R"
      using srt consistent_sort_reads_title [OF c, of "sortOrder st"] o
      by (simp add: sort_reads_other js_orders_distinct)
    then show ?thesis by (simp add: consistent_ge [OF c])
  qed
  show ?thesis using newest oldest az za by blast
qed

text \<open>
  C6, instances: the two posts, both with valid dates, under each of the four orders.
\<close>

theorem filteredPosts_ordered_witness:
  "filteredPosts ascii_lower default_compare [alpha, beta] initial_state = [beta, alpha] \<and>
   valid_date alpha \<and> valid_date beta \<and>
   sorted_wrt newer_first
     (filteredPosts ascii_lower default_compare [alpha, beta] initial_state) \<and>
   filteredPosts_some ascii_lower default_compare [beta, alpha]
     (setSortOrder (js ''oldest'') initial_state) = [alpha, beta] \<and>
   sorted_wrt older_first
     (filteredPosts_some ascii_lower default_compare [beta, alpha]
        (setSortOrder (js ''oldest'') initial_state)) \<and>
   consistent default_compare \<and>
   filteredPosts ascii_lower default_compare [beta, alpha]
     (setSortOrder (js ''a-z'') initial_state) = [alpha, beta] \<and>
   sorted_wrt (\<lambda>a b. default_compare (title (data a)) (title (data b)) \<le> 0)
     (filteredPosts ascii_lower default_compare [beta, alpha]
        (setSortOrder (js ''a-z'') initial_state)) \<and>
   filteredPosts ascii_lower default_compare [alpha, beta]
     (setSortOrder (js ''z-a'') initial_state) = [beta, alpha] \<and>
   sorted_wrt (\<lambda>a b. default_compare (title (data a)) (title (data b)) \<ge> 0)
     (filteredPosts ascii_lower default_compare [alpha, beta]
        (setSortOrder (js ''z-a'') initial_state))"
  using
    filteredPosts_ordered [of "filteredPosts ascii_lower default_compare [alpha, beta] initial_state"
      ascii_lower default_compare "[alpha, beta]" initial_state]
    filteredPosts_ordered [of "filteredPosts_some ascii_lower default_compare [beta, alpha]
        (setSortOrder (js ''oldest'') initial_state)"
      ascii_lower default_compare "[beta, alpha]" "setSortOrder (js ''oldest'') initial_state"]
    filteredPosts_ordered [of "filteredPosts ascii_lower default_compare [beta, alpha]
        (setSortOrder (js ''a-z'') initial_state)"
      ascii_lower default_compare "[beta, alpha]" "setSortOrder (js ''a-z'') initial_state"]
    filteredPosts_ordered [of "filteredPosts ascii_lower default_compare [alpha, beta]
        (setSortOrder (js ''z-a'') initial_state)"
      ascii_lower default_compare "[alpha, beta]" "setSortOrder (js ''z-a'') initial_state"]
    consistent_default_compare
  by (simp add: valid_date_def run_defs ex_defs)

text \<open>
  C6 as stated fails for a post with an Invalid Date: the comparator returns \<open>NaN\<close> for it,
  which the sort reads as a tie with every post. Under \<open>newest\<close> the posts with the time
  values 1 and 2 and the Invalid Date between them stay as they are, the older post
  before the newer one.
\<close>

theorem filteredPosts_invalid_date_counterexample:
  "sortOrder initial_state = js ''newest'' \<and>
   filteredPosts ascii_lower default_compare [old_post, bad_post, new_post] initial_state =
     [old_post, bad_post, new_post] \<and>
   \<not> newer_first old_post new_post \<and>
   \<not> sorted_wrt newer_first
       (filteredPosts ascii_lower default_compare [old_post, bad_post, new_post] initial_state)"
  by (simp add: newer_first_def run_defs ex_defs)

text \<open>
  C7. Toggling a tag twice gives back the set of selected tags, and with it the results of
  both copies, and leaves the search text and the sort order alone; when the tag was not
  selected the whole state is restored. One toggle changes the membership of that tag and
  of no other. (\<open>selectedTags\<close> is an array read only through \<open>includes\<close>, \<open>every\<close>, \<open>some\<close>
  and its length being zero, so it stands for a set; toggling a selected tag twice moves
  it to the end of the array.)
\<close>

theorem toggleTag_round_trip:
  "set (selectedTags (toggleTag t (toggleTag t st))) = set (selectedTags st) \<and>
   search (toggleTag t (toggleTag t st)) = search st \<and>
   sortOrder (toggleTag t (toggleTag t st)) = sortOrder st \<and>
   (t \<notin> set (selectedTags st) \<longrightarrow> toggleTag t (toggleTag t st) = st) \<and>
   filteredPosts toLowerCase localeCompare posts (toggleTag t (toggleTag t st)) =
     filteredPosts toLowerCase localeCompare posts st \<and>
   filteredPosts_some toLowerCase localeCompare posts (toggleTag t (toggleTag t st)) =
     filteredPosts_some toLowerCase localeCompare posts st \<and>
   (t \<in> set (selectedTags (toggleTag t st)) \<longleftrightarrow> t \<notin> set (selectedTags st)) \<and>
   (\<forall>u. u \<noteq> t \<longrightarrow>
      (u \<in> set (selectedTags (toggleTag t st)) \<longleftrightarrow> u \<in> set (selectedTags st)))"
proof -
  let ?st2 = "toggleTag t (toggleTag t st)"
  have s: "search ?st2 = search st" and o: "sortOrder ?st2 = sortOrder st"
    by (simp_all add: toggleTag_other)
  have k: "keeps toLowerCase ?st2 = keeps toLowerCase st"
    using s set_toggleTag_twice by (rule keeps_cong)
  have ks: "keeps_some toLowerCase ?st2 = keeps_some toLowerCase st"
    using s set_toggleTag_twice by (rule keeps_some_cong)
  have f: "filteredPosts toLowerCase localeCompare posts ?st2 =
           filteredPosts toLowerCase localeCompare posts st"
    by (simp only: filteredPosts_keeps k o)
  have fs: "filteredPosts_some toLowerCase localeCompare posts ?st2 =
            filteredPosts_some toLowerCase localeCompare posts st"
    by (simp only: filteredPosts_some_keeps ks o)
  have single: "(t \<in> set (selectedTags (toggleTag t st)) \<longleftrightarrow> t \<notin> set (selectedTags st)) \<and>
     (\<forall>u. u \<noteq> t \<longrightarrow>
        (u \<in> set (selectedTags (toggleTag t st)) \<longleftrightarrow> u \<in> set (selectedTags st)))"
    by (simp add: set_toggleTag)
  show ?thesis
    using set_toggleTag_twice [of t st] s o toggleTag_twice_absent [of t st] f fs single
    by blast
qed

text \<open>
  C7, instances: \<open>x\<close> toggled twice from the initial state, and \<open>y\<close> staying selected
  while \<open>x\<close> is toggled.
\<close>

theorem toggleTag_round_trip_witness:
  "js ''x'' \<notin> set (selectedTags initial_state) \<and>
   toggleTag (js ''x'') (toggleTag (js ''x'') initial_state) = initial_state \<and>
   js ''y'' \<noteq> js ''x'' \<and>
   js ''y'' \<in> set (selectedTags (toggleTag (js ''y'') initial_state)) \<and>
   js ''y'' \<in> set (selectedTags (toggleTag (js ''x'') (toggleTag (js ''y'') initial_state))) \<and>
   filteredPosts ascii_lower default_compare [alpha, beta]
     (toggleTag (js ''x'') (toggleTag (js ''x'') initial_state)) =
   filteredPosts ascii_lower default_compare [alpha, beta] initial_state"
  using toggleTag_round_trip [of "js ''x''" initial_state ascii_lower default_compare "[alpha, beta]"]
    toggleTag_round_trip [of "js ''x''" "toggleTag (js ''y'') initial_state"
      ascii_lower default_compare "[alpha, beta]"]
  by (simp add: ex_defs)

text \<open>
  C8. For a post whose \<open>tags\<close> field is absent, the tag filter of either copy holds iff
  no tag is selected.
\<close>

theorem matchesTags_absent_tags:
  assumes "tags (data p) = None"
  shows "(matchesTags sel p \<longleftrightarrow> sel = []) \<and> (matchesTags_some sel p \<longleftrightarrow> sel = [])"
proof -
  have "\<not> tags_include p t" for t
    using assms by (simp add: tags_include_def)
  then show ?thesis
    by (cases sel) (simp_all add: matchesTags_def matchesTags_some_def list_ex_iff)
qed

text \<open>
  C8, instance: the post without tags, with no tag and with one tag selected.
\<close>

theorem matchesTags_absent_tags_witness:
  "tags (data untagged) = None \<and>
   matchesTags [] untagged \<and> \<not> matchesTags [js ''x''] untagged \<and>
   matchesTags_some [] untagged \<and> \<not> matchesTags_some [js ''x''] untagged"
  using matchesTags_absent_tags [of untagged "[]"] matchesTags_absent_tags [of untagged "[js ''x'']"]
  by (simp add: ex_defs)




text \<open>
  C10. \<open>selectedTags\<close> starts empty, and \<open>toggleTag\<close> keeps a duplicate-free list
  duplicate-free.
\<close>

theorem toggleTag_distinct:
  "selectedTags initial_state = [] \<and>
   (distinct (selectedTags st) \<longrightarrow> distinct (selectedTags (toggleTag t st)))"
  by (simp add: initial_state_def toggleTag_def Let_def)

text \<open>
  C10, instances: a tag added to a duplicate-free selection, and a tag removed from it.
\<close>

theorem toggleTag_distinct_witness:
  "distinct (selectedTags (toggleTag (js ''y'') initial_state)) \<and>
   distinct (selectedTags (toggleTag (js ''x'') (toggleTag (js ''y'') initial_state))) \<and>
   distinct (selectedTags (toggleTag (js ''y'') (toggleTag (js ''y'') initial_state)))"
  using toggleTag_distinct [of "toggleTag (js ''y'') initial_state" "js ''x''"]
    toggleTag_distinct [of "toggleTag (js ''y'') initial_state" "js ''y''"]
  by (simp add: ex_defs)

end
